theory Spec2Isabelle
  imports Complex_Main
begin

section \<open>Data model\<close>

text \<open>
  Both stages work on the values that Python's \<open>json\<close> module produces: \<open>None\<close>, booleans,
  integers, floats, strings, lists and dictionaries with string keys. A dictionary is an
  association list in insertion order, read with \<open>map_of\<close> (the first entry of a key is
  the entry of the dictionary). A float is abstracted to the real number it denotes: the
  code only passes floats along and tests them for zero. Strings are byte strings; the two
  delimiters the code splits on (\<open>_\<close> and \<open>T\<close>) are ASCII, so splitting on bytes and on code
  points agree.
\<close>

datatype json =
    JNull
  | JBool bool
  | JInt int
  | JFloat real
  | JStr string
  | JList "json list"
  | JObj "(string \<times> json) list"

text \<open>The exceptions that the modelled code can raise.\<close>

datatype exn = AttributeError | TypeError | KeyError | IndexError | ValueError | OSError

text \<open>Python truthiness (\<open>if x\<close>, \<open>not x\<close>, \<open>a and x\<close>) of a JSON value.\<close>

fun py_truthy :: "json \<Rightarrow> bool" where
  "py_truthy JNull = False"
| "py_truthy (JBool b) = b"
| "py_truthy (JInt i) = (i \<noteq> 0)"
| "py_truthy (JFloat x) = (x \<noteq> 0)"
| "py_truthy (JStr s) = (s \<noteq> [])"
| "py_truthy (JList xs) = (xs \<noteq> [])"
| "py_truthy (JObj d) = (d \<noteq> [])"

text \<open>\<open>x.get(key, default)\<close>: only a dictionary has the method.\<close>

fun py_get :: "json \<Rightarrow> string \<Rightarrow> json \<Rightarrow> exn + json" where
  "py_get (JObj d) key dflt = Inr (case map_of d key of None \<Rightarrow> dflt | Some v \<Rightarrow> v)"
| "py_get _ key dflt = Inl AttributeError"

text \<open>\<open>for x in v\<close>: a list yields its elements, a string its characters, a dictionary its
  keys; anything else is not iterable.\<close>

fun py_iter :: "json \<Rightarrow> exn + json list" where
  "py_iter (JList xs) = Inr xs"
| "py_iter (JStr s) = Inr (map (\<lambda>c. JStr [c]) s)"
| "py_iter (JObj d) = Inr (map JStr (remdups (map fst d)))"
| "py_iter _ = Inl TypeError"

text \<open>\<open>len(v)\<close>.\<close>

fun py_len :: "json \<Rightarrow> exn + nat" where
  "py_len (JList xs) = Inr (length xs)"
| "py_len (JStr s) = Inr (length s)"
| "py_len (JObj d) = Inr (length (remdups (map fst d)))"
| "py_len _ = Inl TypeError"

text \<open>\<open>v[0]\<close>. The keys of a JSON dictionary are strings, so the integer key \<open>0\<close> is never
  present in one.\<close>

fun py_index0 :: "json \<Rightarrow> exn + json" where
  "py_index0 (JList []) = Inl IndexError"
| "py_index0 (JList (x # xs)) = Inr x"
| "py_index0 (JStr []) = Inl IndexError"
| "py_index0 (JStr (c # cs)) = Inr (JStr [c])"
| "py_index0 (JObj d) = Inl KeyError"
| "py_index0 _ = Inl TypeError"

text \<open>\<open>s.split(sep)\<close> for a one-character separator: every occurrence of the separator
  cuts, and the result always has at least one element.\<close>

fun split_py :: "char \<Rightarrow> string \<Rightarrow> string list" where
  "split_py sep [] = [[]]"
| "split_py sep (c # cs) =
     (if c = sep then [] # split_py sep cs
      else (case split_py sep cs of
              [] \<Rightarrow> [[c]]
            | w # ws \<Rightarrow> (c # w) # ws))"

definition startswith :: "string \<Rightarrow> string \<Rightarrow> bool" where
  "startswith s p = (take (length p) s = p)"

section \<open>The field schema (\<open>ExtensionFields.FIELD_MAPPING\<close>)\<close>

text \<open>Output column name and extraction path, in the insertion order of the dictionary
  literal, which is the order \<open>.keys()\<close> and \<open>.values()\<close> iterate in.\<close>

definition FIELD_MAPPING :: "(string \<times> string) list" where
  "FIELD_MAPPING =
    [(''publisherId'', ''publisher_publisherId''),
     (''publisherName'', ''publisher_publisherName''),
     (''publisherDisplayName'', ''publisher_displayName''),
     (''extensionId'', ''extensionId''),
     (''extensionName'', ''extensionName''),
     (''extensionDisplayName'', ''displayName''),
     (''lastUpdated'', ''lastUpdated''),
     (''publishedDate'', ''publishedDate''),
     (''install'', ''statistics_install''),
     (''averagerating'', ''statistics_averagerating''),
     (''ratingcount'', ''statistics_ratingcount''),
     (''trendingdaily'', ''statistics_trendingdaily''),
     (''trendingmonthly'', ''statistics_trendingmonthly''),
     (''downloadCount'', ''statistics_downloadCount''),
     (''categories'', ''categories''),
     (''tags'', ''tags''),
     (''pricing'', ''pricing''),
     (''hasIcon'', ''hasIcon'')]"

section \<open>The flattener (\<open>ExtensionDataProcessor\<close>)\<close>

text \<open>The loop of \<open>_extract_nested_value\<close>: \<open>value = value.get(key)\<close>, leaving with \<open>None\<close>
  as soon as a lookup gives \<open>None\<close>.\<close>

fun nested_loop :: "json \<Rightarrow> string list \<Rightarrow> exn + json" where
  "nested_loop v [] = Inr v"
| "nested_loop v (key # keys) =
     (case py_get v key JNull of
        Inl e \<Rightarrow> Inl e
      | Inr v' \<Rightarrow> if v' = JNull then Inr JNull else nested_loop v' keys)"

definition extract_nested_value :: "json \<Rightarrow> string \<Rightarrow> exn + json" where
  "extract_nested_value data path = nested_loop data (split_py CHR ''_'' path)"

text \<open>The loop of \<open>_extract_statistic_value\<close>: the first entry whose \<open>statisticName\<close>
  equals the name decides. A JSON value equals a Python string exactly when it is that
  string.\<close>

fun statistic_loop :: "json list \<Rightarrow> string \<Rightarrow> exn + json" where
  "statistic_loop [] stat_name = Inr JNull"
| "statistic_loop (stat # stats) stat_name =
     (case py_get stat ''statisticName'' JNull of
        Inl e \<Rightarrow> Inl e
      | Inr n \<Rightarrow> if n = JStr stat_name then py_get stat ''value'' JNull
                else statistic_loop stats stat_name)"

definition extract_statistic_value :: "json \<Rightarrow> string \<Rightarrow> exn + json" where
  "extract_statistic_value extension stat_name =
     (case py_get extension ''statistics'' (JList []) of
        Inl e \<Rightarrow> Inl e
      | Inr statistics \<Rightarrow>
          (case py_iter statistics of
             Inl e \<Rightarrow> Inl e
           | Inr stats \<Rightarrow> statistic_loop stats stat_name))"

text \<open>\<open>value.split('T')[0]\<close>: only a string has the method.\<close>

fun date_part :: "json \<Rightarrow> exn + json" where
  "date_part (JStr s) =
     (case split_py CHR ''T'' s of
        [] \<Rightarrow> Inl IndexError
      | w # ws \<Rightarrow> Inr (JStr w))"
| "date_part _ = Inl AttributeError"

text \<open>The body of the loop of \<open>_process_extension\<close> for one extraction path.\<close>

definition process_field :: "json \<Rightarrow> string \<Rightarrow> exn + json" where
  "process_field extension field_path =
     (if startswith field_path ''statistics_'' then
        (case split_py CHR ''_'' field_path of
           w # stat_name # ws \<Rightarrow> extract_statistic_value extension stat_name
         | _ \<Rightarrow> Inl IndexError)
      else
        (case extract_nested_value extension field_path of
           Inl e \<Rightarrow> Inl e
         | Inr v \<Rightarrow>
             if field_path \<in> set [''lastUpdated'', ''publishedDate''] \<and> py_truthy v
             then date_part v
             else Inr v))"

fun process_fields :: "json \<Rightarrow> string list \<Rightarrow> exn + json list" where
  "process_fields extension [] = Inr []"
| "process_fields extension (field_path # paths) =
     (case process_field extension field_path of
        Inl e \<Rightarrow> Inl e
      | Inr v \<Rightarrow>
          (case process_fields extension paths of
             Inl e \<Rightarrow> Inl e
           | Inr vs \<Rightarrow> Inr (v # vs)))"

definition process_extension :: "json \<Rightarrow> exn + json list" where
  "process_extension extension = process_fields extension (map snd FIELD_MAPPING)"

subsection \<open>Well-shaped extension records\<close>

text \<open>
  The shape the flattener relies on, with every field optional: the record is a dictionary;
  \<open>publisher\<close> is absent, \<open>None\<close> or a dictionary; \<open>statistics\<close> is absent or a list of
  dictionaries; each of the two date fields is absent, a string, or a falsy value.
\<close>

fun is_mapping :: "json \<Rightarrow> bool" where
  "is_mapping (JObj d) = True"
| "is_mapping _ = False"

fun publisher_ok :: "json option \<Rightarrow> bool" where
  "publisher_ok None = True"
| "publisher_ok (Some JNull) = True"
| "publisher_ok (Some (JObj d)) = True"
| "publisher_ok (Some _) = False"

fun statistics_ok :: "json option \<Rightarrow> bool" where
  "statistics_ok None = True"
| "statistics_ok (Some (JList stats)) = list_all is_mapping stats"
| "statistics_ok (Some _) = False"

fun date_ok :: "json option \<Rightarrow> bool" where
  "date_ok None = True"
| "date_ok (Some (JStr s)) = True"
| "date_ok (Some v) = (\<not> py_truthy v)"

fun extension_record :: "json \<Rightarrow> bool" where
  "extension_record (JObj d) =
     (publisher_ok (map_of d ''publisher'') \<and>
      statistics_ok (map_of d ''statistics'') \<and>
      date_ok (map_of d ''lastUpdated'') \<and>
      date_ok (map_of d ''publishedDate''))"
| "extension_record _ = False"


subsection \<open>The statistics lookup, as the specification words it\<close>

text \<open>
  The value field of the first entry of the \<open>statistics\<close> sequence whose name field equals
  the statistic name; \<open>None\<close> when the sequence is absent, when no entry matches, or when
  the matching entry has no value field. \<open>extract_statistic_value\<close> above is the code; this
  is what it is compared with.
\<close>

fun named :: "string \<Rightarrow> json \<Rightarrow> bool" where
  "named s (JObj e) = (map_of e ''statisticName'' = Some (JStr s))"
| "named s _ = False"

fun field_or_none :: "json \<Rightarrow> string \<Rightarrow> json" where
  "field_or_none (JObj e) k = (case map_of e k of None \<Rightarrow> JNull | Some v \<Rightarrow> v)"
| "field_or_none _ k = JNull"

fun statistics_of :: "json option \<Rightarrow> json list" where
  "statistics_of (Some (JList stats)) = stats"
| "statistics_of _ = []"

definition first_statistic :: "json list \<Rightarrow> string \<Rightarrow> json" where
  "first_statistic stats s =
     (case find (named s) stats of
        None \<Rightarrow> JNull
      | Some st \<Rightarrow> field_or_none st ''value'')"


section \<open>The crawler (\<open>MarketplaceCrawler\<close>)\<close>

text \<open>
  What \<open>requests.post\<close>, \<open>raise_for_status\<close> and \<open>response.json()\<close> give for one page:
  \<open>RequestFailed\<close> stands for any \<open>RequestException\<close> (connection error, timeout, a
  non-success status, a body that \<open>requests\<close> cannot decode), \<open>Body b\<close> for a success
  response with decoded body \<open>b\<close>. The network is the environment: a function from page
  numbers to responses.
\<close>

datatype response = RequestFailed | Body json

text \<open>\<open>response.json().get('results', [{}])[0].get('extensions', [])\<close>.\<close>

definition parse_body :: "json \<Rightarrow> exn + json" where
  "parse_body b =
     (case py_get b ''results'' (JList [JObj []]) of
        Inl e \<Rightarrow> Inl e
      | Inr results \<Rightarrow>
          (case py_index0 results of
             Inl e \<Rightarrow> Inl e
           | Inr first \<Rightarrow> py_get first ''extensions'' (JList [])))"

text \<open>\<open>except (KeyError, IndexError): return None\<close>; every other exception propagates.\<close>

definition catch_parse :: "exn + json \<Rightarrow> exn + json" where
  "catch_parse r =
     (case r of
        Inl e \<Rightarrow> if e = KeyError \<or> e = IndexError then Inr JNull else Inl e
      | Inr v \<Rightarrow> Inr v)"

text \<open>\<open>_make_request\<close>: \<open>None\<close> (here \<open>JNull\<close>) is the failure signal.\<close>

fun make_request :: "response \<Rightarrow> exn + json" where
  "make_request RequestFailed = Inr JNull"
| "make_request (Body b) = catch_parse (parse_body b)"

text \<open>\<open>extension.pop('versions', None)\<close>: a dictionary loses the key; \<open>list.pop\<close> takes at
  most one argument; no other JSON value has the method.\<close>

fun pop_versions :: "json \<Rightarrow> exn + json" where
  "pop_versions (JObj d) = Inr (JObj (filter (\<lambda>kv. fst kv \<noteq> ''versions'') d))"
| "pop_versions (JList xs) = Inl TypeError"
| "pop_versions _ = Inl AttributeError"

text \<open>The loop \<open>for extension in extensions: extension.pop('versions', None)\<close>.\<close>

fun pop_all :: "json list \<Rightarrow> exn + json list" where
  "pop_all [] = Inr []"
| "pop_all (x # xs) =
     (case pop_versions x of
        Inl e \<Rightarrow> Inl e
      | Inr x' \<Rightarrow>
          (case pop_all xs of
             Inl e \<Rightarrow> Inl e
           | Inr xs' \<Rightarrow> Inr (x' # xs')))"

text \<open>
  \<open>_save_extensions\<close>. The snapshot directory is a map from page numbers to the JSON
  written for the page. Whether the write of a page succeeds is the environment's choice
  (\<open>io page\<close>); a failed write raises \<open>IOError\<close>, which the function catches and logs, and
  leaves the directory as it was. The records are mutated in place, so the function
  returns the list as the caller sees it afterwards, next to the directory.
\<close>

definition save_extensions ::
  "(int \<Rightarrow> bool) \<Rightarrow> json \<Rightarrow> int \<Rightarrow> (int \<rightharpoonup> json) \<Rightarrow> exn + (json \<times> (int \<rightharpoonup> json))" where
  "save_extensions io extensions page fs =
     (case py_iter extensions of
        Inl e \<Rightarrow> Inl e
      | Inr items \<Rightarrow>
          (case pop_all items of
             Inl e \<Rightarrow> Inl e
           | Inr items' \<Rightarrow>
               (let extensions' = (case extensions of JList xs \<Rightarrow> JList items' | _ \<Rightarrow> extensions)
                in Inr (extensions', if io page then fs(page \<mapsto> extensions') else fs))))"

text \<open>
  The state of \<open>crawl\<close>: the running total, the snapshot directory, and (as a trace, not a
  variable of the code) the pages \<open>_save_extensions\<close> was called for, in call order.
\<close>

record crawl_state =
  total_extensions :: nat
  saved_pages :: "int list"
  files :: "int \<rightharpoonup> json"

text \<open>The body of \<open>for page in range(1, max_pages + 1)\<close>, with its \<open>break\<close>.\<close>

fun crawl_loop ::
  "(int \<Rightarrow> response) \<Rightarrow> (int \<Rightarrow> bool) \<Rightarrow> int list \<Rightarrow> crawl_state \<Rightarrow> exn + crawl_state" where
  "crawl_loop http io [] st = Inr st"
| "crawl_loop http io (page # pages) st =
     (case make_request (http page) of
        Inl e \<Rightarrow> Inl e
      | Inr extensions \<Rightarrow>
          if \<not> py_truthy extensions then Inr st
          else
            (case py_len extensions of
               Inl e \<Rightarrow> Inl e
             | Inr n \<Rightarrow>
                 (case save_extensions io extensions page (files st) of
                    Inl e \<Rightarrow> Inl e
                  | Inr (extensions', fs') \<Rightarrow>
                      crawl_loop http io pages
                        (st\<lparr>total_extensions := total_extensions st + n,
                            saved_pages := saved_pages st @ [page],
                            files := fs'\<rparr>))))"

text \<open>\<open>crawl\<close>: the value returned to the caller is \<open>total_extensions\<close> of the final state.\<close>

definition crawl ::
  "(int \<Rightarrow> response) \<Rightarrow> (int \<Rightarrow> bool) \<Rightarrow> int \<Rightarrow> (int \<rightharpoonup> json) \<Rightarrow> exn + crawl_state" where
  "crawl http io max_pages fs =
     crawl_loop http io [1..max_pages]
       \<lparr>total_extensions = 0, saved_pages = [], files = fs\<rparr>"

subsection \<open>Notions used to state the crawler's properties\<close>

text \<open>The record with its \<open>versions\<close> entry removed and nothing else changed.\<close>

fun strip_versions :: "json \<Rightarrow> json" where
  "strip_versions (JObj d) = JObj (filter (\<lambda>kv. fst kv \<noteq> ''versions'') d)"
| "strip_versions v = v"

text \<open>A page whose fetch yields a non-empty list of records.\<close>

definition good_page :: "(int \<Rightarrow> response) \<Rightarrow> int \<Rightarrow> bool" where
  "good_page http p =
     (case make_request (http p) of
        Inr (JList exts) \<Rightarrow> exts \<noteq> [] \<and> list_all is_mapping exts
      | _ \<Rightarrow> False)"

text \<open>A page whose fetch yields the empty list or the failure signal.\<close>

definition end_page :: "(int \<Rightarrow> response) \<Rightarrow> int \<Rightarrow> bool" where
  "end_page http p =
     (make_request (http p) = Inr (JList []) \<or> make_request (http p) = Inr JNull)"

text \<open>The records fetched for a page, and their number.\<close>

definition page_records :: "(int \<Rightarrow> response) \<Rightarrow> int \<Rightarrow> json list" where
  "page_records http p =
     (case make_request (http p) of Inr (JList exts) \<Rightarrow> exts | _ \<Rightarrow> [])"

definition page_count :: "(int \<Rightarrow> response) \<Rightarrow> int \<Rightarrow> nat" where
  "page_count http p = length (page_records http p)"

text \<open>The number of records held by the snapshots of the given pages.\<close>

definition snapshot_records :: "(int \<rightharpoonup> json) \<Rightarrow> int list \<Rightarrow> nat" where
  "snapshot_records fs ps =
     sum_list (map (\<lambda>p. case fs p of Some (JList xs) \<Rightarrow> length xs | _ \<Rightarrow> 0) ps)"

text \<open>An example network: two records on page 1, one on page 2, an empty page 3, and a
  failing request for every other page.\<close>

definition example_http :: "int \<Rightarrow> response" where
  "example_http p =
     (if p = 1 then
        Body (JObj [(''results'', JList [JObj [(''extensions'',
          JList [JObj [(''extensionName'', JStr ''python''), (''versions'', JList [JInt 1])],
                 JObj [(''extensionName'', JStr ''pylance'')]])]])])
      else if p = 2 then
        Body (JObj [(''results'', JList [JObj [(''extensions'',
          JList [JObj [(''extensionName'', JStr ''jupyter'')]])]])])
      else if p = 3 then
        Body (JObj [(''results'', JList [JObj [(''extensions'', JList [])]])])
      else RequestFailed)"


section \<open>The table export (\<open>ExtensionDataProcessor.export_to_sqlite\<close>)\<close>

text \<open>
  \<open>export_to_sqlite\<close> calls two library functions. \<open>pd.read_csv\<close> is a parameter of the
  model: any function from the text of the file to a frame or an exception; a missing
  file raises \<open>OSError\<close>. \<open>df.to_sql(table_name, conn, if_exists='replace', index=False)\<close>
  drops the table of that name if there is one and creates it from the frame, adding no
  index column. The text files are a map from paths to texts; the databases are a function
  from database paths to maps from table names to tables (\<open>sqlite3.connect\<close> creates a
  missing database, which is the empty map). Every exception is logged and raised again.
\<close>

definition to_sql_replace :: "'f \<Rightarrow> string \<Rightarrow> (string \<rightharpoonup> 'f) \<Rightarrow> (string \<rightharpoonup> 'f)" where
  "to_sql_replace df table_name db = db(table_name \<mapsto> df)"

definition export_to_sqlite ::
  "('t \<Rightarrow> exn + 'f) \<Rightarrow> (string \<rightharpoonup> 't) \<Rightarrow> string \<Rightarrow> string \<Rightarrow> string \<Rightarrow>
   (string \<Rightarrow> string \<rightharpoonup> 'f) \<Rightarrow> exn + (string \<Rightarrow> string \<rightharpoonup> 'f)" where
  "export_to_sqlite read_csv fs csv_file db_file table_name dbs =
     (case fs csv_file of
        None \<Rightarrow> Inl OSError
      | Some text \<Rightarrow>
          (case read_csv text of
             Inl e \<Rightarrow> Inl e
           | Inr df \<Rightarrow> Inr (dbs(db_file := to_sql_replace df table_name (dbs db_file)))))"


section \<open>Properties of the flattener\<close>

lemma split_py_nonempty: "split_py sep s \<noteq> []"
  by (induction s) (auto split: list.splits)

lemma split_py_head: "split_py sep s = w # ws \<Longrightarrow> w = takeWhile (\<lambda>c. c \<noteq> sep) s"
  using split_py_nonempty
  by (induction s arbitrary: w ws) (auto split: if_splits list.splits)

lemma date_part_str: "date_part (JStr s) = Inr (JStr (takeWhile (\<lambda>c. c \<noteq> CHR ''T'') s))"
  using split_py_head [of "CHR ''T''" s] split_py_nonempty [of "CHR ''T''" s]
  by (cases "split_py CHR ''T'' s") auto

lemma statistic_loop_total:
  "list_all is_mapping stats \<Longrightarrow> \<exists>v. statistic_loop stats s = Inr v"
proof (induction stats)
  case Nil
  then show ?case by simp
next
  case (Cons st stats)
  then obtain d where "st = JObj d" by (cases st) auto
  with Cons show ?case by auto
qed

lemma extract_statistic_total:
  assumes "statistics_ok (map_of d ''statistics'')"
  shows "\<exists>v. extract_statistic_value (JObj d) s = Inr v"
  using assms
  by (cases "map_of d ''statistics''" rule: statistics_ok.cases)
     (auto simp: extract_statistic_value_def statistic_loop_total)

lemma nested_one:
  "nested_loop (JObj d) [k] = Inr (case map_of d k of None \<Rightarrow> JNull | Some v \<Rightarrow> v)"
  by (simp split: option.splits)

lemma nested_two:
  "nested_loop (JObj d) [k, k'] =
     (case map_of d k of
        None \<Rightarrow> Inr JNull
      | Some v \<Rightarrow> if v = JNull then Inr JNull else py_get v k' JNull)"
  by (cases "map_of d k") (auto split: sum.splits)

lemma extract_nested_one:
  "split_py CHR ''_'' p = [k] \<Longrightarrow>
   extract_nested_value (JObj d) p = Inr (case map_of d k of None \<Rightarrow> JNull | Some v \<Rightarrow> v)"
  by (simp add: extract_nested_value_def split: option.splits)

lemma extract_nested_two:
  "split_py CHR ''_'' p = [k, k'] \<Longrightarrow>
   extract_nested_value (JObj d) p =
     (case map_of d k of
        None \<Rightarrow> Inr JNull
      | Some v \<Rightarrow> if v = JNull then Inr JNull else py_get v k' JNull)"
  by (simp add: extract_nested_value_def nested_two del: nested_loop.simps)

lemma process_field_statistic:
  "startswith p ''statistics_'' \<Longrightarrow> split_py CHR ''_'' p = w # s # ws \<Longrightarrow>
   process_field r p = extract_statistic_value r s"
  by (simp add: process_field_def)

lemma process_field_plain:
  "\<not> startswith p ''statistics_'' \<Longrightarrow> p \<noteq> ''lastUpdated'' \<Longrightarrow> p \<noteq> ''publishedDate'' \<Longrightarrow>
   process_field r p = extract_nested_value r p"
  by (simp add: process_field_def split: sum.splits)

lemma process_field_date:
  "p = ''lastUpdated'' \<or> p = ''publishedDate'' \<Longrightarrow>
   process_field (JObj d) p =
     (case map_of d p of
        None \<Rightarrow> Inr JNull
      | Some v \<Rightarrow> if py_truthy v then date_part v else Inr v)"
  by (auto simp: process_field_def startswith_def extract_nested_value_def split: option.splits)

lemma publisher_total:
  assumes "publisher_ok (map_of d ''publisher'')"
    and "split_py CHR ''_'' p = [''publisher'', k]"
    and "\<not> startswith p ''statistics_''" and "p \<noteq> ''lastUpdated''" and "p \<noteq> ''publishedDate''"
  shows "\<exists>v. process_field (JObj d) p = Inr v"
  using assms(1)
  by (cases "map_of d ''publisher''" rule: publisher_ok.cases)
     (auto simp: process_field_plain [OF assms(3-5)] extract_nested_two [OF assms(2)])

lemma date_total:
  assumes "date_ok (map_of d p)" and "p = ''lastUpdated'' \<or> p = ''publishedDate''"
  shows "\<exists>v. process_field (JObj d) p = Inr v"
  using assms(1)
  by (cases "map_of d p" rule: date_ok.cases)
     (auto simp: process_field_date [OF assms(2)] date_part_str simp del: date_part.simps)

lemma plain_total:
  assumes "split_py CHR ''_'' p = [k]"
    and "\<not> startswith p ''statistics_''" and "p \<noteq> ''lastUpdated''" and "p \<noteq> ''publishedDate''"
  shows "\<exists>v. process_field (JObj d) p = Inr v"
  by (simp add: process_field_plain [OF assms(2-4)] extract_nested_one [OF assms(1)])

lemma statistic_total:
  assumes "statistics_ok (map_of d ''statistics'')"
    and "startswith p ''statistics_''" and "split_py CHR ''_'' p = w # s # ws"
  shows "\<exists>v. process_field (JObj d) p = Inr v"
  by (simp add: process_field_statistic [OF assms(2,3)] extract_statistic_total [OF assms(1)])

lemma process_field_total:
  assumes "extension_record r" and "p \<in> set (map snd FIELD_MAPPING)"
  shows "\<exists>v. process_field r p = Inr v"
proof -
  from assms(1) obtain d where r: "r = JObj d" by (cases r) auto
  with assms(1) have ok: "publisher_ok (map_of d ''publisher'')"
    "statistics_ok (map_of d ''statistics'')"
    "date_ok (map_of d ''lastUpdated'')" "date_ok (map_of d ''publishedDate'')"
    by auto
  from assms(2) consider
      (pub) k where "split_py CHR ''_'' p = [''publisher'', k]"
        "\<not> startswith p ''statistics_''" "p \<noteq> ''lastUpdated''" "p \<noteq> ''publishedDate''"
    | (plain) k where "split_py CHR ''_'' p = [k]"
        "\<not> startswith p ''statistics_''" "p \<noteq> ''lastUpdated''" "p \<noteq> ''publishedDate''"
    | (date) "p = ''lastUpdated'' \<or> p = ''publishedDate''"
    | (stat) w s ws where "startswith p ''statistics_''" "split_py CHR ''_'' p = w # s # ws"
    unfolding FIELD_MAPPING_def by (auto simp: startswith_def)
  then show ?thesis
  proof cases
    case pub
    then show ?thesis unfolding r by (rule publisher_total [OF ok(1)])
  next
    case plain
    then show ?thesis unfolding r by (rule plain_total)
  next
    case date
    then show ?thesis unfolding r using ok(3,4) by (auto intro: date_total)
  next
    case stat
    then show ?thesis unfolding r by (rule statistic_total [OF ok(2)])
  qed
qed

lemma process_fields_all2:
  "process_fields r ps = Inr row \<Longrightarrow> list_all2 (\<lambda>p v. process_field r p = Inr v) ps row"
  by (induction ps arbitrary: row) (auto split: sum.splits)

lemma process_fields_total:
  "\<forall>p\<in>set ps. \<exists>v. process_field r p = Inr v \<Longrightarrow> \<exists>row. process_fields r ps = Inr row"
  by (induction ps) (auto split: sum.splits)

lemma process_extension_total:
  "extension_record r \<Longrightarrow> \<exists>row. process_extension r = Inr row"
  unfolding process_extension_def
  by (rule process_fields_total) (simp add: process_field_total)

lemma process_extension_aligned:
  assumes "process_extension r = Inr row"
  shows "length row = length FIELD_MAPPING"
    and "i < length FIELD_MAPPING \<Longrightarrow> process_field r (snd (FIELD_MAPPING ! i)) = Inr (row ! i)"
proof -
  from assms have "list_all2 (\<lambda>p v. process_field r p = Inr v) (map snd FIELD_MAPPING) row"
    unfolding process_extension_def by (rule process_fields_all2)
  then have *: "length FIELD_MAPPING = length row"
    "\<forall>i<length FIELD_MAPPING. process_field r (snd (FIELD_MAPPING ! i)) = Inr (row ! i)"
    by (simp_all add: list_all2_conv_all_nth)
  from * show "length row = length FIELD_MAPPING" by simp
  from * show "i < length FIELD_MAPPING \<Longrightarrow> process_field r (snd (FIELD_MAPPING ! i)) = Inr (row ! i)"
    by simp
qed

text \<open>
  Claim C2. Whenever the flattener returns a row for a record, the row has exactly as many
  values as the schema has entries, and the value at position \<open>i\<close> is the value computed
  for the extraction path of the \<open>i\<close>-th schema entry. It does return a row for every
  well-shaped extension record, whichever of its fields are present or absent.
\<close>

theorem flatten_full_width:
  "(extension_record r \<longrightarrow> (\<exists>row. process_extension r = Inr row)) \<and>
   (\<forall>row. process_extension r = Inr row \<longrightarrow>
      length row = length FIELD_MAPPING \<and>
      (\<forall>i<length FIELD_MAPPING.
         process_field r (snd (FIELD_MAPPING ! i)) = Inr (row ! i)))"
  using process_extension_total [of r] process_extension_aligned [of r]
  by blast

theorem flatten_full_width_witness:
  "extension_record (JObj [(''extensionName'', JStr ''python'')]) \<and>
   process_extension (JObj [(''extensionName'', JStr ''python'')]) =
     Inr [JNull, JNull, JNull, JNull, JStr ''python'', JNull, JNull, JNull, JNull,
          JNull, JNull, JNull, JNull, JNull, JNull, JNull, JNull, JNull] \<and>
   length [JNull, JNull, JNull, JNull, JStr ''python'', JNull, JNull, JNull, JNull,
          JNull, JNull, JNull, JNull, JNull, JNull, JNull, JNull, JNull] = length FIELD_MAPPING"
  using flatten_full_width [of "JObj [(''extensionName'', JStr ''python'')]"]
  by (simp add: process_extension_def FIELD_MAPPING_def process_field_def startswith_def
      extract_nested_value_def extract_statistic_value_def)

text \<open>
  Claim C3, as stated, fails: a record whose \<open>publisher\<close> is present but is a string makes
  the second lookup of the path \<open>publisher_publisherId\<close> call \<open>.get\<close> on a string, and
  the flattener raises \<open>AttributeError\<close> instead of yielding \<open>None\<close>.
\<close>

theorem flatten_non_mapping_counterexample:
  "process_extension (JObj [(''publisher'', JStr ''abc'')]) = Inl AttributeError"
  by (simp add: process_extension_def FIELD_MAPPING_def process_field_def startswith_def
      extract_nested_value_def)

lemma nested_loop_missing:
  "map_of d k = None \<or> map_of d k = Some JNull \<Longrightarrow> nested_loop (JObj d) (k # ks) = Inr JNull"
  by auto

lemma nested_loop_step:
  "map_of d k = Some v \<Longrightarrow> v \<noteq> JNull \<Longrightarrow> nested_loop (JObj d) (k # ks) = nested_loop v ks"
  by auto

text \<open>
  Claim C3, amended. For every well-shaped extension record the flattener returns a
  full-width row; and along a nested path a lookup whose key is missing, or whose value is
  \<open>None\<close>, short-circuits the column to \<open>None\<close>, while a lookup that finds a value goes on
  from that value.
\<close>

theorem flatten_returns_on_records:
  "(extension_record r \<longrightarrow> (\<exists>row. process_extension r = Inr row \<and> length row = length FIELD_MAPPING)) \<and>
   (\<forall>d k ks. map_of d k = None \<or> map_of d k = Some JNull \<longrightarrow>
      nested_loop (JObj d) (k # ks) = Inr JNull) \<and>
   (\<forall>d k ks v. map_of d k = Some v \<and> v \<noteq> JNull \<longrightarrow>
      nested_loop (JObj d) (k # ks) = nested_loop v ks)"
  using process_extension_total [of r] process_extension_aligned(1) [of r]
    nested_loop_missing nested_loop_step
  by blast

theorem flatten_returns_on_records_witness:
  "extension_record (JObj [(''publisher'', JObj [(''displayName'', JStr ''ms'')])]) \<and>
   (\<exists>row. process_extension (JObj [(''publisher'', JObj [(''displayName'', JStr ''ms'')])]) = Inr row \<and>
      length row = length FIELD_MAPPING) \<and>
   map_of [(''displayName'', JStr ''ms'')] ''publisherId'' = None \<and>
   nested_loop (JObj [(''displayName'', JStr ''ms'')]) [''publisherId''] = Inr JNull \<and>
   map_of [(''publisher'', JObj [(''displayName'', JStr ''ms'')])] ''publisher'' =
     Some (JObj [(''displayName'', JStr ''ms'')]) \<and>
   nested_loop (JObj [(''publisher'', JObj [(''displayName'', JStr ''ms'')])])
     [''publisher'', ''publisherId''] =
   nested_loop (JObj [(''displayName'', JStr ''ms'')]) [''publisherId'']"
  using flatten_returns_on_records [of "JObj [(''publisher'', JObj [(''displayName'', JStr ''ms'')])]"]
  by simp

subsection \<open>Statistics lookup\<close>

lemma statistic_loop_first:
  "list_all is_mapping stats \<Longrightarrow> statistic_loop stats s = Inr (first_statistic stats s)"
proof (induction stats)
  case Nil
  then show ?case by (simp add: first_statistic_def)
next
  case (Cons st stats)
  then obtain e where st: "st = JObj e" by (cases st) auto
  from Cons have IH: "statistic_loop stats s = Inr (first_statistic stats s)" by simp
  show ?case
  proof (cases "map_of e ''statisticName'' = Some (JStr s)")
    case True
    then show ?thesis by (simp add: st first_statistic_def)
  next
    case False
    then have "(case map_of e ''statisticName'' of None \<Rightarrow> JNull | Some v \<Rightarrow> v) \<noteq> JStr s"
      by (auto split: option.splits)
    with False IH show ?thesis by (simp add: st first_statistic_def)
  qed
qed

lemma extract_statistic_first:
  assumes "statistics_ok (map_of d ''statistics'')"
  shows "extract_statistic_value (JObj d) s =
    Inr (first_statistic (statistics_of (map_of d ''statistics'')) s)"
  using assms
  by (cases "map_of d ''statistics''" rule: statistics_ok.cases)
     (auto simp: extract_statistic_value_def statistic_loop_first first_statistic_def)

lemma schema_statistic_path:
  assumes "(c, p) \<in> set FIELD_MAPPING" and "startswith p ''statistics_''"
  shows "\<exists>w ws. split_py CHR ''_'' p = w # drop 11 p # ws"
  using assms unfolding FIELD_MAPPING_def by (auto simp: startswith_def)

text \<open>
  Claim C4. For a record whose \<open>statistics\<close> is absent or a list of dictionaries, the
  statistics lookup for a name \<open>s\<close> yields the value field of the first entry whose
  \<open>statisticName\<close> is \<open>s\<close>, and \<open>None\<close> when the sequence is absent, no entry matches, or
  the matching entry has no value field; every schema entry whose path starts with
  \<open>statistics_\<close> yields that lookup for the name after the prefix. The record with
  statistics \<open>[{statisticName: "install", value: 42}]\<close> flattens to a row with 42 in the
  \<open>install\<close> column and \<open>None\<close> in every other column.
\<close>

theorem statistic_lookup:
  assumes "statistics_ok (map_of d ''statistics'')"
  shows "extract_statistic_value (JObj d) s =
           Inr (first_statistic (statistics_of (map_of d ''statistics'')) s) \<and>
         (\<forall>cp\<in>set FIELD_MAPPING. startswith (snd cp) ''statistics_'' \<longrightarrow>
            process_field (JObj d) (snd cp) =
              Inr (first_statistic (statistics_of (map_of d ''statistics'')) (drop 11 (snd cp)))) \<and>
         process_extension (JObj [(''statistics'',
             JList [JObj [(''statisticName'', JStr ''install''), (''value'', JInt 42)]])]) =
           Inr [JNull, JNull, JNull, JNull, JNull, JNull, JNull, JNull, JInt 42,
                JNull, JNull, JNull, JNull, JNull, JNull, JNull, JNull, JNull]"
proof (intro conjI ballI impI)
  show "extract_statistic_value (JObj d) s =
           Inr (first_statistic (statistics_of (map_of d ''statistics'')) s)"
    by (rule extract_statistic_first [OF assms])
next
  fix cp assume cp: "cp \<in> set FIELD_MAPPING" and st: "startswith (snd cp) ''statistics_''"
  from cp have "(fst cp, snd cp) \<in> set FIELD_MAPPING" by simp
  from schema_statistic_path [OF this st] obtain w ws
    where "split_py CHR ''_'' (snd cp) = w # drop 11 (snd cp) # ws" by blast
  from process_field_statistic [OF st this]
  show "process_field (JObj d) (snd cp) =
      Inr (first_statistic (statistics_of (map_of d ''statistics'')) (drop 11 (snd cp)))"
    by (simp add: extract_statistic_first [OF assms])
next
  show "process_extension (JObj [(''statistics'',
             JList [JObj [(''statisticName'', JStr ''install''), (''value'', JInt 42)]])]) =
           Inr [JNull, JNull, JNull, JNull, JNull, JNull, JNull, JNull, JInt 42,
                JNull, JNull, JNull, JNull, JNull, JNull, JNull, JNull, JNull]"
    by (simp add: process_extension_def FIELD_MAPPING_def process_field_def startswith_def
        extract_nested_value_def extract_statistic_value_def)
qed


theorem statistic_lookup_witness:
  "statistics_ok (map_of [(''statistics'',
       JList [JObj [(''statisticName'', JStr ''install''), (''value'', JInt 42)]])] ''statistics'') \<and>
   extract_statistic_value (JObj [(''statistics'',
       JList [JObj [(''statisticName'', JStr ''install''), (''value'', JInt 42)]])]) ''install'' =
     Inr (JInt 42) \<and>
   process_field (JObj [(''statistics'',
       JList [JObj [(''statisticName'', JStr ''install''), (''value'', JInt 42)]])]) ''statistics_install'' =
     Inr (JInt 42) \<and>
   process_field (JObj [(''statistics'',
       JList [JObj [(''statisticName'', JStr ''install''), (''value'', JInt 42)]])]) ''statistics_ratingcount'' =
     Inr JNull"
  using statistic_lookup [of "[(''statistics'',
       JList [JObj [(''statisticName'', JStr ''install''), (''value'', JInt 42)]])]" "''install''"]
  by (simp add: FIELD_MAPPING_def startswith_def first_statistic_def)


subsection \<open>Date truncation\<close>

lemma schema_date_column:
  assumes "(c, p) \<in> set FIELD_MAPPING"
  shows "(c = ''lastUpdated'' \<or> c = ''publishedDate'') = (p = ''lastUpdated'' \<or> p = ''publishedDate'')"
    and "c = ''lastUpdated'' \<or> c = ''publishedDate'' \<Longrightarrow> p = c"
  using assms unfolding FIELD_MAPPING_def by auto

lemma process_field_date_str:
  assumes "p = ''lastUpdated'' \<or> p = ''publishedDate''" and "map_of d p = Some (JStr s)"
  shows "process_field (JObj d) p = Inr (JStr (takeWhile (\<lambda>c. c \<noteq> CHR ''T'') s))"
  using assms(2)
  by (cases s) (simp_all add: process_field_date [OF assms(1)] date_part_str del: date_part.simps)

lemma process_field_date_none:
  assumes "p = ''lastUpdated'' \<or> p = ''publishedDate''"
    and "map_of d p = None \<or> map_of d p = Some JNull"
  shows "process_field (JObj d) p = Inr JNull"
  using assms(2) by (auto simp: process_field_date [OF assms(1)])

lemma process_field_other:
  assumes "(c, p) \<in> set FIELD_MAPPING" and "\<not> (c = ''lastUpdated'' \<or> c = ''publishedDate'')"
  shows "process_field r p =
     (if startswith p ''statistics_'' then extract_statistic_value r (drop 11 p)
      else extract_nested_value r p)"
proof (cases "startswith p ''statistics_''")
  case True
  from schema_statistic_path [OF assms(1) True] obtain w ws
    where "split_py CHR ''_'' p = w # drop 11 p # ws" by blast
  from process_field_statistic [OF True this] True show ?thesis by simp
next
  case False
  from assms schema_date_column(1) [OF assms(1)]
  have "p \<noteq> ''lastUpdated''" "p \<noteq> ''publishedDate''" by auto
  from process_field_plain [OF False this] False show ?thesis by simp
qed

text \<open>
  Claim C5. In a row the flattener returns, a date column (\<open>lastUpdated\<close>,
  \<open>publishedDate\<close>) whose field is a string holds the prefix of that string before the first
  \<open>T\<close>, and holds \<open>None\<close> when the field is absent or \<open>None\<close>; every other column holds the
  extracted value unchanged. The timestamp \<open>2021-05-01T10:00:00Z\<close> becomes \<open>2021-05-01\<close>.
\<close>

theorem date_truncation:
  assumes "process_extension (JObj d) = Inr row" and "i < length FIELD_MAPPING"
  shows "(fst (FIELD_MAPPING ! i) = ''lastUpdated'' \<or> fst (FIELD_MAPPING ! i) = ''publishedDate'' \<longrightarrow>
            (\<forall>s. map_of d (fst (FIELD_MAPPING ! i)) = Some (JStr s) \<longrightarrow>
               row ! i = JStr (takeWhile (\<lambda>c. c \<noteq> CHR ''T'') s)) \<and>
            (map_of d (fst (FIELD_MAPPING ! i)) = None \<or>
             map_of d (fst (FIELD_MAPPING ! i)) = Some JNull \<longrightarrow> row ! i = JNull)) \<and>
         (\<not> (fst (FIELD_MAPPING ! i) = ''lastUpdated'' \<or> fst (FIELD_MAPPING ! i) = ''publishedDate'') \<longrightarrow>
            Inr (row ! i) =
              (if startswith (snd (FIELD_MAPPING ! i)) ''statistics_''
               then extract_statistic_value (JObj d) (drop 11 (snd (FIELD_MAPPING ! i)))
               else extract_nested_value (JObj d) (snd (FIELD_MAPPING ! i)))) \<and>
         process_field (JObj [(''lastUpdated'', JStr ''2021-05-01T10:00:00Z'')]) ''lastUpdated'' =
           Inr (JStr ''2021-05-01'')"
proof -
  define c p where c_p_def: "c = fst (FIELD_MAPPING ! i)" "p = snd (FIELD_MAPPING ! i)"
  from assms(2) have mem: "(c, p) \<in> set FIELD_MAPPING"
    unfolding c_p_def by simp
  from process_extension_aligned(2) [OF assms] have val: "process_field (JObj d) p = Inr (row ! i)"
    unfolding c_p_def .
  have A: "row ! i = JStr (takeWhile (\<lambda>c. c \<noteq> CHR ''T'') s)"
    if "c = ''lastUpdated'' \<or> c = ''publishedDate''" "map_of d c = Some (JStr s)" for s
  proof -
    from schema_date_column(2) [OF mem that(1)] have pc: "p = c" .
    from that pc have "p = ''lastUpdated'' \<or> p = ''publishedDate''" "map_of d p = Some (JStr s)"
      by simp_all
    from process_field_date_str [OF this] val show ?thesis by simp
  qed
  have B: "row ! i = JNull"
    if "c = ''lastUpdated'' \<or> c = ''publishedDate''" "map_of d c = None \<or> map_of d c = Some JNull"
  proof -
    from schema_date_column(2) [OF mem that(1)] have pc: "p = c" .
    from that pc have "p = ''lastUpdated'' \<or> p = ''publishedDate''"
      "map_of d p = None \<or> map_of d p = Some JNull"
      by simp_all
    from process_field_date_none [OF this] val show ?thesis by simp
  qed
  have C: "Inr (row ! i) =
      (if startswith p ''statistics_'' then extract_statistic_value (JObj d) (drop 11 p)
       else extract_nested_value (JObj d) p)"
    if "\<not> (c = ''lastUpdated'' \<or> c = ''publishedDate'')"
    using process_field_other [OF mem that, of "JObj d"] val by simp
  have D: "process_field (JObj [(''lastUpdated'', JStr ''2021-05-01T10:00:00Z'')]) ''lastUpdated'' =
           Inr (JStr ''2021-05-01'')"
    by (simp add: process_field_def startswith_def extract_nested_value_def)
  from A B C D show ?thesis unfolding c_p_def by blast
qed


theorem date_truncation_witness:
  "process_extension (JObj [(''lastUpdated'', JStr ''2021-05-01T10:00:00Z''),
                           (''tags'', JList [JStr ''Tools''])]) =
     Inr [JNull, JNull, JNull, JNull, JNull, JNull, JStr ''2021-05-01'', JNull, JNull,
          JNull, JNull, JNull, JNull, JNull, JNull, JList [JStr ''Tools''], JNull, JNull] \<and>
   (6::nat) < length FIELD_MAPPING \<and> fst (FIELD_MAPPING ! 6) = ''lastUpdated'' \<and>
   [JNull, JNull, JNull, JNull, JNull, JNull, JStr ''2021-05-01'', JNull, JNull,
          JNull, JNull, JNull, JNull, JNull, JNull, JList [JStr ''Tools''], JNull, JNull] ! 6 =
     JStr (takeWhile (\<lambda>c. c \<noteq> CHR ''T'') ''2021-05-01T10:00:00Z'')"
proof -
  have run: "process_extension (JObj [(''lastUpdated'', JStr ''2021-05-01T10:00:00Z''),
                           (''tags'', JList [JStr ''Tools''])]) =
     Inr [JNull, JNull, JNull, JNull, JNull, JNull, JStr ''2021-05-01'', JNull, JNull,
          JNull, JNull, JNull, JNull, JNull, JNull, JList [JStr ''Tools''], JNull, JNull]"
    by (simp add: process_extension_def FIELD_MAPPING_def process_field_def startswith_def
        extract_nested_value_def extract_statistic_value_def)
  have idx: "(6::nat) < length FIELD_MAPPING" by (simp add: FIELD_MAPPING_def)
  have col: "fst (FIELD_MAPPING ! 6) = ''lastUpdated''" by (simp add: FIELD_MAPPING_def)
  from date_truncation [OF run idx] col run idx show ?thesis by simp
qed


section \<open>Properties of the crawler\<close>

subsection \<open>Saving a page\<close>

lemma pop_all_mappings:
  "list_all is_mapping exts \<Longrightarrow> pop_all exts = Inr (map strip_versions exts)"
proof (induction exts)
  case Nil
  then show ?case by simp
next
  case (Cons x xs)
  then obtain d where "x = JObj d" by (cases x) auto
  with Cons show ?case by simp
qed

lemma save_extensions_mappings:
  assumes "list_all is_mapping exts"
  shows "save_extensions io (JList exts) page fs =
    Inr (JList (map strip_versions exts),
         if io page then fs(page \<mapsto> JList (map strip_versions exts)) else fs)"
  by (simp add: save_extensions_def Let_def pop_all_mappings [OF assms])

lemma strip_versions_mapping:
  "strip_versions (JObj d) = JObj d' \<Longrightarrow>
   map_of d' ''versions'' = None \<and> (\<forall>k. k \<noteq> ''versions'' \<longrightarrow> map_of d' k = map_of d k)"
proof -
  assume "strip_versions (JObj d) = JObj d'"
  then have d': "d' = filter (\<lambda>kv. fst kv \<noteq> ''versions'') d" by simp
  have "map_of (filter (\<lambda>kv. fst kv \<noteq> x) d) k = (if k = x then None else map_of d k)" for x k
    by (induction d) auto
  with d' show ?thesis by simp
qed

text \<open>
Claim C7. For every list of records (dictionaries) and every page number, saving
  returns normally; afterwards the list has the same length, each record has no
  \<open>versions\<close> key and maps every other key to what it mapped to before; when the write
  succeeds the artifact of the page is exactly that list of stripped records, when it
  fails the directory is as before; and the artifact of no other page changes.
\<close>

theorem save_strips_versions:
  assumes "list_all is_mapping exts"
  shows "\<exists>exts' fs'.
           save_extensions io (JList exts) page fs = Inr (JList exts', fs') \<and>
           length exts' = length exts \<and>
           (\<forall>i<length exts. \<exists>d d'.
              exts ! i = JObj d \<and> exts' ! i = JObj d' \<and>
              map_of d' ''versions'' = None \<and>
              (\<forall>k. k \<noteq> ''versions'' \<longrightarrow> map_of d' k = map_of d k)) \<and>
           (io page \<longrightarrow> fs' page = Some (JList exts')) \<and>
           (\<not> io page \<longrightarrow> fs' = fs) \<and>
           (\<forall>p. p \<noteq> page \<longrightarrow> fs' p = fs p)"
proof -
  let ?exts' = "map strip_versions exts"
  let ?fs' = "if io page then fs(page \<mapsto> JList ?exts') else fs"
  have run: "save_extensions io (JList exts) page fs = Inr (JList ?exts', ?fs')"
    by (rule save_extensions_mappings [OF assms])
  have each: "\<exists>d d'. exts ! i = JObj d \<and> ?exts' ! i = JObj d' \<and>
      map_of d' ''versions'' = None \<and> (\<forall>k. k \<noteq> ''versions'' \<longrightarrow> map_of d' k = map_of d k)"
    if "i < length exts" for i
  proof -
    from assms that have "is_mapping (exts ! i)" by (simp add: list_all_length)
    then obtain d where d: "exts ! i = JObj d" by (cases "exts ! i") auto
    obtain d' where d': "strip_versions (JObj d) = JObj d'" by simp
    from strip_versions_mapping [OF d'] d d' that show ?thesis by simp
  qed
  from run each show ?thesis by (intro exI [of _ ?exts'] exI [of _ ?fs']) simp
qed

theorem save_strips_versions_witness:
  "list_all is_mapping [JObj [(''extensionName'', JStr ''python''), (''versions'', JList [JInt 1])]] \<and>
   save_extensions (\<lambda>p. True)
     (JList [JObj [(''extensionName'', JStr ''python''), (''versions'', JList [JInt 1])]]) 3 Map.empty =
   Inr (JList [JObj [(''extensionName'', JStr ''python'')]],
        [3 \<mapsto> JList [JObj [(''extensionName'', JStr ''python'')]]])"
  using save_strips_versions [of "[JObj [(''extensionName'', JStr ''python''), (''versions'', JList [JInt 1])]]"
      "\<lambda>p. True" 3 Map.empty]
  by (simp add: save_extensions_def Let_def)

subsection \<open>Fetching a page\<close>

lemma crawl_loop_stop:
  "make_request (http page) = Inr v \<Longrightarrow> \<not> py_truthy v \<Longrightarrow>
   crawl_loop http io (page # pages) st = Inr st"
  by simp

text \<open>
Claim C6, as stated, fails. A success response whose body is the empty object lacks
  \<open>results[0].extensions\<close>, and the fetch returns the empty list, which is not the failure
  signal \<open>None\<close> that a transport failure gives. A success response whose \<open>results\<close> is
  \<open>null\<close> makes the fetch raise \<open>TypeError\<close> to its caller: only \<open>KeyError\<close> and
  \<open>IndexError\<close> are caught.
\<close>

theorem fetch_shape_counterexample:
  "make_request (Body (JObj [])) = Inr (JList []) \<and>
   make_request (Body (JObj [])) \<noteq> make_request RequestFailed \<and>
   make_request (Body (JObj [(''results'', JNull)])) = Inl TypeError"
  by (simp add: parse_body_def catch_parse_def)

text \<open>
Claim C6, amended. The fetch returns the failure signal \<open>None\<close> on a transport failure,
  and on a success response whose body is a dictionary with \<open>results\<close> an empty list or a
  dictionary. When \<open>results\<close> is absent it returns the empty list, and when the first
  element of \<open>results\<close> is a dictionary it returns that element's \<open>extensions\<close>, the empty
  list when there is none. \<open>None\<close> and the empty list end the crawl alike, without an
  error and with the state as it was.
\<close>

theorem fetch_failure_signals:
  "make_request RequestFailed = Inr JNull \<and>
   (map_of d ''results'' = Some (JList []) \<longrightarrow> make_request (Body (JObj d)) = Inr JNull) \<and>
   (map_of d ''results'' = Some (JObj e) \<longrightarrow> make_request (Body (JObj d)) = Inr JNull) \<and>
   (map_of d ''results'' = None \<longrightarrow> make_request (Body (JObj d)) = Inr (JList [])) \<and>
   (map_of d ''results'' = Some (JList (JObj e # rest)) \<longrightarrow>
      make_request (Body (JObj d)) =
        Inr (case map_of e ''extensions'' of None \<Rightarrow> JList [] | Some v \<Rightarrow> v)) \<and>
   (make_request (http page) = Inr JNull \<or> make_request (http page) = Inr (JList []) \<longrightarrow>
      crawl_loop http io (page # pages) st = Inr st)"
  by (auto simp: parse_body_def catch_parse_def split: option.splits)

theorem fetch_failure_signals_witness:
  "map_of [(''results'', JList [])] ''results'' = Some (JList []) \<and>
   make_request (Body (JObj [(''results'', JList [])])) = Inr JNull \<and>
   make_request ((\<lambda>p. Body (JObj [(''results'', JList [])])) 1) = Inr JNull \<and>
   crawl_loop (\<lambda>p. Body (JObj [(''results'', JList [])])) (\<lambda>p. True) [1, 2]
     \<lparr>total_extensions = 0, saved_pages = [], files = Map.empty\<rparr> =
   Inr \<lparr>total_extensions = 0, saved_pages = [], files = Map.empty\<rparr>"
  using fetch_failure_signals [of "[(''results'', JList [])]" "[]" "[]"
      "\<lambda>p. Body (JObj [(''results'', JList [])])" 1 "\<lambda>p. True" "[2]"
      "\<lparr>total_extensions = 0, saved_pages = [], files = Map.empty\<rparr>"]
  by (simp add: parse_body_def catch_parse_def)

subsection \<open>The crawl loop\<close>

lemma good_pageD:
  assumes "good_page http p"
  shows "make_request (http p) = Inr (JList (page_records http p))"
    and "page_records http p \<noteq> []"
    and "list_all is_mapping (page_records http p)"
    and "0 < page_count http p"
  using assms
  by (auto simp: good_page_def page_records_def page_count_def split: sum.splits json.splits)

lemma crawl_loop_step:
  assumes "good_page http p"
  shows "crawl_loop http io (p # ps) st =
     crawl_loop http io ps
       (st\<lparr>total_extensions := total_extensions st + page_count http p,
           saved_pages := saved_pages st @ [p],
           files := (if io p
                     then (files st)(p \<mapsto> JList (map strip_versions (page_records http p)))
                     else files st)\<rparr>)"
  using good_pageD(1,2) [OF assms]
  by (simp add: save_extensions_mappings [OF good_pageD(3) [OF assms]] page_count_def)

lemma crawl_loop_prefix:
  assumes "\<forall>p\<in>set ps. good_page http p"
  shows "\<exists>st'. crawl_loop http io (ps @ rest) st = crawl_loop http io rest st' \<and>
     total_extensions st' = total_extensions st + sum_list (map (page_count http) ps) \<and>
     saved_pages st' = saved_pages st @ ps \<and>
     (\<forall>p. files st' p =
        (if p \<in> set ps \<and> io p then Some (JList (map strip_versions (page_records http p)))
         else files st p))"
  using assms
proof (induction ps arbitrary: st)
  case Nil
  show ?case by (intro exI [of _ st]) simp
next
  case (Cons q qs)
  let ?st = "st\<lparr>total_extensions := total_extensions st + page_count http q,
           saved_pages := saved_pages st @ [q],
           files := (if io q
                     then (files st)(q \<mapsto> JList (map strip_versions (page_records http q)))
                     else files st)\<rparr>"
  from Cons.prems have q: "good_page http q" and qs: "\<forall>p\<in>set qs. good_page http p" by simp_all
  from Cons.IH [OF qs, of ?st] obtain st' where
    st': "crawl_loop http io (qs @ rest) ?st = crawl_loop http io rest st'"
      "total_extensions st' = total_extensions ?st + sum_list (map (page_count http) qs)"
      "saved_pages st' = saved_pages ?st @ qs"
      "\<forall>p. files st' p =
        (if p \<in> set qs \<and> io p then Some (JList (map strip_versions (page_records http p)))
         else files ?st p)"
    by blast
  have "crawl_loop http io ((q # qs) @ rest) st = crawl_loop http io rest st'"
    using crawl_loop_step [OF q, of io "qs @ rest" st] st'(1) by simp
  moreover have "total_extensions st' =
      total_extensions st + sum_list (map (page_count http) (q # qs))"
    using st'(2) by simp
  moreover have "saved_pages st' = saved_pages st @ (q # qs)"
    using st'(3) by simp
  moreover have "\<forall>p. files st' p =
        (if p \<in> set (q # qs) \<and> io p then Some (JList (map strip_versions (page_records http p)))
         else files st p)"
    using st'(4) by auto
  ultimately show ?case by blast
qed

lemma upto_cut: "0 \<le> k \<Longrightarrow> k \<le> m \<Longrightarrow> [1..m] = [1..k] @ [k + 1..m]"
  by (cases "k = 0") (simp_all add: upto_split2)

lemma crawl_run:
  assumes "0 \<le> k" and "k \<le> max_pages"
    and "\<forall>p\<in>{1..k}. good_page http p"
    and "k = max_pages \<or> end_page http (k + 1)"
  shows "\<exists>st. crawl http io max_pages fs = Inr st \<and>
     total_extensions st = sum_list (map (page_count http) [1..k]) \<and>
     saved_pages st = [1..k] \<and>
     (\<forall>p. files st p =
        (if 1 \<le> p \<and> p \<le> k \<and> io p then Some (JList (map strip_versions (page_records http p)))
         else fs p))"
proof -
  let ?st0 = "\<lparr>total_extensions = 0, saved_pages = [], files = fs\<rparr>"
  from assms(3) have good: "\<forall>p\<in>set [1..k]. good_page http p" by simp
  from crawl_loop_prefix [OF good, of io "[k + 1..max_pages]" ?st0] obtain st where
    st: "crawl_loop http io ([1..k] @ [k + 1..max_pages]) ?st0 =
           crawl_loop http io [k + 1..max_pages] st"
      "total_extensions st = sum_list (map (page_count http) [1..k])"
      "saved_pages st = [1..k]"
      "\<forall>p. files st p =
        (if p \<in> set [1..k] \<and> io p then Some (JList (map strip_versions (page_records http p)))
         else fs p)"
    by auto
  have stop: "crawl_loop http io [k + 1..max_pages] st = Inr st"
  proof (cases "k = max_pages")
    case True
    then show ?thesis by simp
  next
    case False
    with assms(2,4) have lt: "k + 1 \<le> max_pages" and e: "end_page http (k + 1)" by auto
    from lt have "[k + 1..max_pages] = (k + 1) # [k + 1 + 1..max_pages]"
      by (simp add: upto_rec1)
    moreover from e obtain v where "make_request (http (k + 1)) = Inr v" "\<not> py_truthy v"
      unfolding end_page_def by auto
    ultimately show ?thesis by (simp add: crawl_loop_stop)
  qed
  have "crawl http io max_pages fs = Inr st"
    unfolding crawl_def using upto_cut [OF assms(1,2)] st(1) stop by simp
  with st(2,3,4) show ?thesis by auto
qed


text \<open>
Claim C1. Let the fetch yield a non-empty list of records for each of the pages
  \<open>1..k\<close>, with \<open>k \<le> max_pages\<close>, and let either \<open>k = max_pages\<close> or the fetch of page
  \<open>k + 1\<close> yield the empty list or the failure signal. Then \<open>crawl\<close> returns normally, its
  total is the sum of the record counts of the pages \<open>1..k\<close>, and it calls the save exactly
  for the pages \<open>1, ..., k\<close>, once each and in this order; when every write succeeds, the
  directory gains exactly the artifacts of the pages \<open>1..k\<close>. Reaching \<open>max_pages\<close> is the
  case \<open>k = max_pages\<close>, and is not an error.
\<close>

theorem crawl_total_and_saves:
  assumes "0 \<le> k" and "k \<le> max_pages"
    and "\<forall>p\<in>{1..k}. good_page http p"
    and "k = max_pages \<or> end_page http (k + 1)"
  shows "\<exists>st. crawl http io max_pages fs = Inr st \<and>
     total_extensions st = sum_list (map (page_count http) [1..k]) \<and>
     saved_pages st = [1..k] \<and>
     length (saved_pages st) = nat k \<and>
     ((\<forall>p\<in>{1..k}. io p) \<longrightarrow> dom (files st) = dom fs \<union> {1..k})"
proof -
  from crawl_run [OF assms, of io fs] obtain st where
    st: "crawl http io max_pages fs = Inr st"
      "total_extensions st = sum_list (map (page_count http) [1..k])"
      "saved_pages st = [1..k]"
      "\<forall>p. files st p =
        (if 1 \<le> p \<and> p \<le> k \<and> io p then Some (JList (map strip_versions (page_records http p)))
         else fs p)"
    by blast
  from st(3) assms(1) have len: "length (saved_pages st) = nat k" by simp
  have "dom (files st) = dom fs \<union> {1..k}" if "\<forall>p\<in>{1..k}. io p"
    using st(4) that by (auto simp: dom_def)
  with st(1,2,3) len show ?thesis by blast
qed

lemma sum_list_filter_le:
  fixes f :: "'a \<Rightarrow> nat"
  shows "sum_list (map f (filter P xs)) \<le> sum_list (map f xs)"
  by (induction xs) auto

lemma sum_list_filter_less:
  fixes f :: "'a \<Rightarrow> nat"
  assumes "x \<in> set xs" and "\<not> P x" and "0 < f x"
  shows "sum_list (map f (filter P xs)) < sum_list (map f xs)"
  using assms
proof (induction xs)
  case Nil
  then show ?case by simp
next
  case (Cons y ys)
  have le: "sum_list (map f (filter P ys)) \<le> sum_list (map f ys)"
    by (rule sum_list_filter_le)
  show ?case
  proof (cases "x = y")
    case True
    with Cons.prems le show ?thesis by simp
  next
    case False
    with Cons have "sum_list (map f (filter P ys)) < sum_list (map f ys)" by simp
    then show ?thesis by simp
  qed
qed

lemma snapshot_records_written:
  assumes "\<forall>p\<in>set ps. fs p = (if io p then Some (JList (map g (recs p))) else None)"
  shows "snapshot_records fs ps = sum_list (map (\<lambda>p. length (recs p)) (filter io ps))"
  using assms unfolding snapshot_records_def
  by (induction ps) auto

text \<open>
Claim C10. Under the hypotheses of C1, whichever writes fail: the total still is the
  sum of the record counts of all the pages \<open>1..k\<close>, and the save is still called for each
  of them, the pages after a failed write included. Starting from an empty directory, the
  snapshots are those of the pages whose write succeeded, they hold the records of these
  pages only, and as soon as one write failed the total exceeds the number of records in
  the directory.
\<close>

theorem crawl_counts_unsaved_pages:
  assumes "0 \<le> k" and "k \<le> max_pages"
    and "\<forall>p\<in>{1..k}. good_page http p"
    and "k = max_pages \<or> end_page http (k + 1)"
  shows "\<exists>st. crawl http io max_pages Map.empty = Inr st \<and>
     total_extensions st = sum_list (map (page_count http) [1..k]) \<and>
     saved_pages st = [1..k] \<and>
     dom (files st) = {p. 1 \<le> p \<and> p \<le> k \<and> io p} \<and>
     snapshot_records (files st) [1..k] =
       sum_list (map (page_count http) (filter io [1..k])) \<and>
     snapshot_records (files st) [1..k] \<le> total_extensions st \<and>
     ((\<exists>p\<in>{1..k}. \<not> io p) \<longrightarrow> snapshot_records (files st) [1..k] < total_extensions st)"
proof -
  from crawl_run [OF assms, of io Map.empty] obtain st where
    st: "crawl http io max_pages Map.empty = Inr st"
      "total_extensions st = sum_list (map (page_count http) [1..k])"
      "saved_pages st = [1..k]"
      "\<forall>p. files st p =
        (if 1 \<le> p \<and> p \<le> k \<and> io p then Some (JList (map strip_versions (page_records http p)))
         else None)"
    by blast
  from st(4) have d: "dom (files st) = {p. 1 \<le> p \<and> p \<le> k \<and> io p}"
    by (auto simp: dom_def)
  from st(4) have "\<forall>p\<in>set [1..k]. files st p =
      (if io p then Some (JList (map strip_versions (page_records http p))) else None)"
    by simp
  from snapshot_records_written [OF this]
  have "snapshot_records (files st) [1..k] =
       sum_list (map (\<lambda>p. length (page_records http p)) (filter io [1..k]))" .
  moreover have "page_count http = (\<lambda>p. length (page_records http p))"
    by (rule ext) (simp add: page_count_def)
  ultimately have r: "snapshot_records (files st) [1..k] =
       sum_list (map (page_count http) (filter io [1..k]))"
    by simp
  have le: "snapshot_records (files st) [1..k] \<le> total_extensions st"
    unfolding r st(2) by (rule sum_list_filter_le)
  have less: "snapshot_records (files st) [1..k] < total_extensions st"
    if "\<exists>p\<in>{1..k}. \<not> io p"
  proof -
    from that obtain p where p: "p \<in> set [1..k]" "\<not> io p" by auto
    with assms(3) have pos: "0 < page_count http p" by (auto dest: good_pageD(4))
    have "sum_list (map (page_count http) (filter io [1..k])) <
        sum_list (map (page_count http) [1..k])"
      using p pos by (rule sum_list_filter_less [where f = "page_count http" and P = io])
    then show ?thesis unfolding r st(2) .
  qed
  from st(1,2,3) d r le less show ?thesis by blast
qed


lemma example_http_pages:
  "make_request (example_http 1) =
     Inr (JList [JObj [(''extensionName'', JStr ''python''), (''versions'', JList [JInt 1])],
                 JObj [(''extensionName'', JStr ''pylance'')]])"
  "make_request (example_http 2) = Inr (JList [JObj [(''extensionName'', JStr ''jupyter'')]])"
  "make_request (example_http 3) = Inr (JList [])"
  by (simp_all add: example_http_def parse_body_def catch_parse_def)

lemma example_http_good: "\<forall>p\<in>{1..2}. good_page example_http p"
proof
  fix p :: int
  assume "p \<in> {1..2}"
  then have "p = 1 \<or> p = 2" by auto
  then show "good_page example_http p"
    by (auto simp: good_page_def example_http_pages)
qed

lemma upto_1_2: "[1..2] = [1, 2::int]"
  by (simp add: upto.simps)

lemma example_http_counts:
  "sum_list (map (page_count example_http) [1..2]) = 3"
  "sum_list (map (page_count example_http) (filter (\<lambda>p. p \<noteq> 1) [1..2])) = 1"
  by (simp_all add: upto_1_2 page_count_def page_records_def example_http_pages)

theorem crawl_total_and_saves_witness:
  "(0::int) \<le> 2 \<and> (2::int) \<le> 100 \<and>
   good_page example_http 1 \<and> good_page example_http 2 \<and>
   end_page example_http (2 + 1) \<and>
   (\<exists>st. crawl example_http (\<lambda>p. True) 100 Map.empty = Inr st \<and>
      total_extensions st = 3 \<and> saved_pages st = [1, 2] \<and> dom (files st) = {1..2})"
proof -
  have e: "end_page example_http (2 + 1)"
    by (simp add: end_page_def example_http_pages)
  then have e': "(2::int) = 100 \<or> end_page example_http (2 + 1)" by simp
  from crawl_total_and_saves [OF _ _ example_http_good e', of "\<lambda>p. True" Map.empty]
  obtain st where "crawl example_http (\<lambda>p. True) 100 Map.empty = Inr st"
    "total_extensions st = sum_list (map (page_count example_http) [1..2])"
    "saved_pages st = [1..2]" "dom (files st) = {1..2}"
    by auto
  then have "crawl example_http (\<lambda>p. True) 100 Map.empty = Inr st \<and>
      total_extensions st = 3 \<and> saved_pages st = [1, 2] \<and> dom (files st) = {1..2}"
    by (simp add: example_http_counts) (simp add: upto_1_2)
  then have "\<exists>st. crawl example_http (\<lambda>p. True) 100 Map.empty = Inr st \<and>
      total_extensions st = 3 \<and> saved_pages st = [1, 2] \<and> dom (files st) = {1..2}" ..
  with example_http_good e show ?thesis by simp
qed

theorem crawl_counts_unsaved_pages_witness:
  "(0::int) \<le> 2 \<and> (2::int) \<le> 100 \<and>
   good_page example_http 1 \<and> good_page example_http 2 \<and>
   end_page example_http (2 + 1) \<and>
   (\<exists>p\<in>{1..2}. \<not> (\<lambda>p. p \<noteq> (1::int)) p) \<and>
   (\<exists>st. crawl example_http (\<lambda>p. p \<noteq> 1) 100 Map.empty = Inr st \<and>
      total_extensions st = 3 \<and> saved_pages st = [1, 2] \<and>
      snapshot_records (files st) [1..2] = 1)"
proof -
  have e: "end_page example_http (2 + 1)"
    by (simp add: end_page_def example_http_pages)
  then have e': "(2::int) = 100 \<or> end_page example_http (2 + 1)" by simp
  from crawl_counts_unsaved_pages [OF _ _ example_http_good e', of "\<lambda>p. p \<noteq> 1"]
  obtain st where "crawl example_http (\<lambda>p. p \<noteq> 1) 100 Map.empty = Inr st"
    "total_extensions st = sum_list (map (page_count example_http) [1..2])"
    "saved_pages st = [1..2]"
    "snapshot_records (files st) [1..2] =
       sum_list (map (page_count example_http) (filter (\<lambda>p. p \<noteq> 1) [1..2]))"
    by auto
  then have "crawl example_http (\<lambda>p. p \<noteq> 1) 100 Map.empty = Inr st \<and>
      total_extensions st = 3 \<and> saved_pages st = [1, 2] \<and>
      snapshot_records (files st) [1..2] = 1"
    by (simp add: example_http_counts) (simp add: upto_1_2)
  then have "\<exists>st. crawl example_http (\<lambda>p. p \<noteq> 1) 100 Map.empty = Inr st \<and>
      total_extensions st = 3 \<and> saved_pages st = [1, 2] \<and>
      snapshot_records (files st) [1..2] = 1" ..
  with example_http_good e show ?thesis by simp
qed

section \<open>Properties of the table export\<close>

text \<open>
Claim C8. When a run of \<open>export_to_sqlite\<close> succeeds, a second run against the same text
  table succeeds too and leaves every database exactly as the first run left it. After the
  first run the table is the frame read from the text table, whatever the table held
  before, and no other table of any database has changed.
\<close>

theorem export_idempotent:
  assumes "export_to_sqlite read_csv fs csv_file db_file table_name dbs = Inr dbs'"
  shows "export_to_sqlite read_csv fs csv_file db_file table_name dbs' = Inr dbs' \<and>
         (\<exists>body df. fs csv_file = Some body \<and> read_csv body = Inr df \<and>
            dbs' db_file table_name = Some df) \<and>
         (\<forall>d t. d \<noteq> db_file \<or> t \<noteq> table_name \<longrightarrow> dbs' d t = dbs d t)"
proof -
  from assms obtain body df where
    r: "fs csv_file = Some body" "read_csv body = Inr df"
    and d: "dbs' = dbs(db_file := (dbs db_file)(table_name \<mapsto> df))"
    by (auto simp: export_to_sqlite_def to_sql_replace_def split: option.splits sum.splits)
  have "export_to_sqlite read_csv fs csv_file db_file table_name dbs' = Inr dbs'"
    by (simp add: export_to_sqlite_def to_sql_replace_def r d)
  moreover have "dbs' db_file table_name = Some df" by (simp add: d)
  moreover have "\<forall>d t. d \<noteq> db_file \<or> t \<noteq> table_name \<longrightarrow> dbs' d t = dbs d t"
    by (auto simp: d)
  ultimately show ?thesis using r by blast
qed

theorem export_idempotent_witness:
  "export_to_sqlite (\<lambda>t. case t of [] \<Rightarrow> Inl ValueError | h # rows \<Rightarrow> Inr (h, rows))
     [''vscode_extensions.csv'' \<mapsto> [[''publisherId'', ''install''], [''ms'', ''42'']]]
     ''vscode_extensions.csv'' ''vscode_extensions.db'' ''vscode_extensions''
     (\<lambda>d. Map.empty) =
   Inr ((\<lambda>d. Map.empty)(''vscode_extensions.db'' :=
          [''vscode_extensions'' \<mapsto> ([''publisherId'', ''install''], [[''ms'', ''42'']])])) \<and>
   export_to_sqlite (\<lambda>t. case t of [] \<Rightarrow> Inl ValueError | h # rows \<Rightarrow> Inr (h, rows))
     [''vscode_extensions.csv'' \<mapsto> [[''publisherId'', ''install''], [''ms'', ''42'']]]
     ''vscode_extensions.csv'' ''vscode_extensions.db'' ''vscode_extensions''
     ((\<lambda>d. Map.empty)(''vscode_extensions.db'' :=
          [''vscode_extensions'' \<mapsto> ([''publisherId'', ''install''], [[''ms'', ''42'']])])) =
   Inr ((\<lambda>d. Map.empty)(''vscode_extensions.db'' :=
          [''vscode_extensions'' \<mapsto> ([''publisherId'', ''install''], [[''ms'', ''42'']])]))"
proof -
  have run: "export_to_sqlite (\<lambda>t. case t of [] \<Rightarrow> Inl ValueError | h # rows \<Rightarrow> Inr (h, rows))
     [''vscode_extensions.csv'' \<mapsto> [[''publisherId'', ''install''], [''ms'', ''42'']]]
     ''vscode_extensions.csv'' ''vscode_extensions.db'' ''vscode_extensions''
     (\<lambda>d. Map.empty) =
   Inr ((\<lambda>d. Map.empty)(''vscode_extensions.db'' :=
          [''vscode_extensions'' \<mapsto> ([''publisherId'', ''install''], [[''ms'', ''42'']])]))"
    by (simp add: export_to_sqlite_def to_sql_replace_def)
  from export_idempotent [OF run] run show ?thesis by blast
qed

end
